theory Spec2Isabelle
  imports Main "HOL-Library.Sublist"
begin

section \<open>send-updates: change classification and notification composition\<close>

text \<open>
  A shallow embedding of \<^verbatim>\<open>tools/send-updates.py\<close>. The script compares two snapshots
  of the XEP registry, decides for each document which notification (if any) is due, and
  composes the mails. Python dictionaries that are used as records become records whose
  optional keys are \<open>option\<close> fields; every exception the script can raise is a value of
  \<open>error\<close>, and a function that can raise returns \<open>error + 'a\<close> with \<open>Inl\<close> for the error.
\<close>

subsection \<open>Data model\<close>

text \<open>
  Modelled from the spec: the enumeration \<^verbatim>\<open>Status\<close> is declared in \<^verbatim>\<open>xeplib\<close>, which is
  not part of the sources at hand. The script names four of its members; the specification
  says there are further accepted and terminal statuses, which \<open>OTHER_STATUS\<close> stands for
  (its argument tells them apart).
\<close>

datatype Status = PROTO | EXPERIMENTAL | PROPOSED | DEFERRED | OTHER_STATUS string

text \<open>
  Modelled from the spec: the enumeration \<^verbatim>\<open>Action\<close> is declared in \<^verbatim>\<open>xeplib\<close> as well. The
  script names \<^verbatim>\<open>PROTO\<close>, \<^verbatim>\<open>NEW\<close>, \<^verbatim>\<open>UPDATE\<close>, \<^verbatim>\<open>LAST_CALL\<close> and \<^verbatim>\<open>DEFER\<close>;
  \<open>OTHER_ACTION\<close> stands for the members that only \<^verbatim>\<open>Action.fromstatus\<close> produces.
\<close>

datatype Action = PROTO | NEW | UPDATE | LAST_CALL | DEFER | OTHER_ACTION string

text \<open>The exceptions of Python that the modelled code can raise.\<close>

datatype error = KeyError | AttributeError | ValueError

text \<open>
  A document identifier: accepted documents are keyed by their number, proto documents by
  their name, and \<^verbatim>\<open>dummy_info\<close> is called with either.
\<close>

datatype ident = Num int | Name string

text \<open>
  The dictionary under the key \<^verbatim>\<open>last_revision\<close>. The script reads \<^verbatim>\<open>remark\<close> and
  \<^verbatim>\<open>initials\<close> through \<^verbatim>\<open>get\<close> only, so \<open>None\<close> is both a missing key and the value
  \<^verbatim>\<open>None\<close>. The key \<^verbatim>\<open>version\<close> is also read by subscript (in a template), where a
  missing key raises: the outer \<open>None\<close> is the missing key, \<open>Some None\<close> the value \<^verbatim>\<open>None\<close>.
\<close>

record revision =
  version :: "string option option"
  remark :: "string option"
  initials :: "string option"

text \<open>
  A document record. \<^verbatim>\<open>status\<close> is present in every record (\<open>None\<close> is Python's
  \<^verbatim>\<open>None\<close>, the status of a document that did not exist). For every other key \<open>None\<close>
  means that the key is missing, as in the records that \<^verbatim>\<open>dummy_info\<close> builds;
  \<open>last_call\<close> can also be present with the value \<^verbatim>\<open>None\<close>.
\<close>

record info =
  status :: "Status option"
  accepted :: "bool option"
  number :: "ident option"
  title :: "string option"
  abstract :: "string option"
  xep_type :: "string option"
  approver :: "string option"
  protoname :: "string option"
  last_call :: "string option option"
  last_revision :: "revision option"

definition dummy_info :: "ident \<Rightarrow> info" where
  "dummy_info n =
     \<lparr> status = None, accepted = Some False, number = Some n, title = None,
       abstract = None, xep_type = None, approver = None, protoname = None,
       last_call = None, last_revision = None \<rparr>"

text \<open>Subscripting a dictionary: a missing key raises \<^verbatim>\<open>KeyError\<close>.\<close>

definition subscript :: "'a option \<Rightarrow> error + 'a" where
  "subscript v = (case v of None \<Rightarrow> Inl KeyError | Some x \<Rightarrow> Inr x)"

text \<open>Sequencing of steps that can raise: the first exception ends the computation.\<close>

definition and_then :: "error + 'a \<Rightarrow> ('a \<Rightarrow> error + 'b) \<Rightarrow> error + 'b" where
  "and_then m f = (case m of Inl e \<Rightarrow> Inl e | Inr x \<Rightarrow> f x)"

subsection \<open>Change classifier\<close>

text \<open>\<^verbatim>\<open>info.get("last_revision", {}).get("version")\<close>\<close>

definition extract_version :: "info \<Rightarrow> string option" where
  "extract_version i =
     (case last_revision i of
        None \<Rightarrow> None
      | Some r \<Rightarrow> (case version r of None \<Rightarrow> None | Some v \<Rightarrow> v))"

text \<open>
  \<^verbatim>\<open>Action.fromstatus\<close> lives in \<^verbatim>\<open>xeplib\<close>; it is a parameter here. It is applied to
  whatever \<^verbatim>\<open>new["status"]\<close> holds, it may raise, and what it returns is returned as it is.
\<close>

type_synonym fromstatus = "Status option \<Rightarrow> error + Action option"

definition diff_infos :: "fromstatus \<Rightarrow> info \<Rightarrow> info \<Rightarrow> error + Action option" where
  "diff_infos fromstatus old new =
     (if status old \<noteq> status new then
        (if status new = Some Status.PROTO then Inr (Some Action.PROTO)
         else if status old = None then Inr (Some Action.NEW)
         else if status old = Some Status.DEFERRED \<and> status new = Some Status.EXPERIMENTAL
           then Inr (Some Action.UPDATE)
         else if status old = Some Status.PROPOSED \<and> status new = Some Status.EXPERIMENTAL
           then Inr None
         else fromstatus (status new))
      else
        and_then (if status old = Some Status.PROPOSED
                  then and_then (subscript (last_call old)) (\<lambda>old_last_call.
                       and_then (subscript (last_call new)) (\<lambda>new_last_call.
                       Inr (old_last_call \<noteq> new_last_call)))
                  else Inr False) (\<lambda>last_call_differs.
        if last_call_differs then Inr (Some Action.LAST_CALL)
        else (let old_version = extract_version old;
                  new_version = extract_version new
              in if old_version \<noteq> new_version then Inr (Some Action.UPDATE)
                 else Inr None)))"

subsection \<open>Significance filter\<close>

text \<open>\<^verbatim>\<open>str.split\<close> with a separator of one character: \<^verbatim>\<open>"".split(".")\<close> is \<^verbatim>\<open>[""]\<close>.\<close>

fun str_split :: "char \<Rightarrow> string \<Rightarrow> string list" where
  "str_split sep [] = [[]]"
| "str_split sep (c # cs) =
     (if c = sep then [] # str_split sep cs
      else (case str_split sep cs of
              [] \<Rightarrow> [[c]]
            | w # ws \<Rightarrow> (c # w) # ws))"

definition decompose_version :: "string \<Rightarrow> string list" where
  "decompose_version s =
     (let version_info = str_split (CHR ''.'') s
      in if length version_info < 3
         then version_info @ replicate (3 - length version_info) ''0''
         else version_info)"

text \<open>
  The versions are what \<open>extract_version\<close> returns, so either can be \<^verbatim>\<open>None\<close>. Only the
  old one is tested; \<^verbatim>\<open>decompose_version(None)\<close> raises \<^verbatim>\<open>AttributeError\<close> at
  \<^verbatim>\<open>s.split\<close>.
\<close>

definition filter_bump_level ::
  "string option \<Rightarrow> string option \<Rightarrow> bool \<Rightarrow> bool \<Rightarrow> error + bool" where
  "filter_bump_level old_version new_version include_editorial include_non_editorial =
     (case (case old_version of
              None \<Rightarrow> Inr False
            | Some ov \<Rightarrow>
                (case new_version of
                   None \<Rightarrow> Inl AttributeError
                 | Some nv \<Rightarrow>
                     Inr (take 2 (decompose_version ov) = take 2 (decompose_version nv)))) of
        Inl e \<Rightarrow> Inl e
      | Inr is_editorial \<Rightarrow>
          (if is_editorial \<and> \<not> include_editorial then Inr False
           else if \<not> is_editorial \<and> \<not> include_non_editorial then Inr False
           else Inr True))"

subsection \<open>Reporting loop\<close>

text \<open>
  The snapshots are the dictionaries that \<^verbatim>\<open>load_xepinfos\<close> returns (accepted documents by
  number, proto documents by name), as association lists read with \<open>map_of\<close>. A Python
  set is a list without repetitions here; the order in which Python walks a set is not
  fixed, and no statement below depends on the order chosen.
\<close>

type_synonym 'k snapshot = "('k \<times> info) list"

definition keys :: "'k snapshot \<Rightarrow> 'k list" where
  "keys d = remdups (map fst d)"

definition common_xeps :: "'k snapshot \<Rightarrow> 'k snapshot \<Rightarrow> 'k list" where
  "common_xeps old new = filter (\<lambda>k. k \<in> set (keys new)) (keys old)"

definition added_xeps :: "'k snapshot \<Rightarrow> 'k snapshot \<Rightarrow> 'k list" where
  "added_xeps old new = filter (\<lambda>k. k \<notin> set (keys old)) (keys new)"

text \<open>The options of the command line that the loop reads.\<close>

record args =
  include_protoxep :: bool
  include_editorial :: bool
  include_non_editorial :: bool

type_synonym update = "ident \<times> Action \<times> info"

text \<open>
  One pass of a \<^verbatim>\<open>for\<close> loop over the keys: the body either raises, or appends one entry
  to \<^verbatim>\<open>updates\<close> (\<open>Some\<close>), or appends nothing (\<open>None\<close>, which is also the \<^verbatim>\<open>continue\<close>).
\<close>

fun for_each :: "('k \<Rightarrow> error + update option) \<Rightarrow> 'k list \<Rightarrow> update list \<Rightarrow> error + update list" where
  "for_each body [] updates = Inr updates"
| "for_each body (k # ks) updates =
     (case body k of
        Inl e \<Rightarrow> Inl e
      | Inr None \<Rightarrow> for_each body ks updates
      | Inr (Some u) \<Rightarrow> for_each body ks (updates @ [u]))"

text \<open>The body of \<^verbatim>\<open>for common_xep in common_xeps\<close>.\<close>

definition common_body ::
  "fromstatus \<Rightarrow> args \<Rightarrow> int snapshot \<Rightarrow> int snapshot \<Rightarrow> int \<Rightarrow> error + update option" where
  "common_body fromstatus a old_accepted new_accepted common_xep =
     and_then (subscript (map_of old_accepted common_xep)) (\<lambda>old_info.
     and_then (subscript (map_of new_accepted common_xep)) (\<lambda>new_info.
     and_then (diff_infos fromstatus old_info new_info) (\<lambda>action.
     and_then (if action = Some Action.UPDATE
               then and_then (filter_bump_level (extract_version old_info)
                                (extract_version new_info)
                                (include_editorial a) (include_non_editorial a))
                      (\<lambda>keep. Inr (\<not> keep))
               else Inr False) (\<lambda>skip.
     if skip then Inr None
     else (case action of
             None \<Rightarrow> Inr None
           | Some act \<Rightarrow> Inr (Some (Num common_xep, act, new_info)))))))"

text \<open>
  The bodies of \<^verbatim>\<open>for added_xep in added_xeps\<close> and \<^verbatim>\<open>for added_proto in added_protos\<close>:
  the old record is the dummy, and there is no filter.
\<close>

definition added_body :: "fromstatus \<Rightarrow> int snapshot \<Rightarrow> int \<Rightarrow> error + update option" where
  "added_body fromstatus new_accepted added_xep =
     (let old_info = dummy_info (Num added_xep)
      in and_then (subscript (map_of new_accepted added_xep)) (\<lambda>new_info.
         and_then (diff_infos fromstatus old_info new_info) (\<lambda>action.
         (case action of
            None \<Rightarrow> Inr None
          | Some act \<Rightarrow> Inr (Some (Num added_xep, act, new_info))))))"

definition proto_body :: "fromstatus \<Rightarrow> string snapshot \<Rightarrow> string \<Rightarrow> error + update option" where
  "proto_body fromstatus new_proto added_proto =
     (let old_info = dummy_info (Name ''xxxx'')
      in and_then (subscript (map_of new_proto added_proto)) (\<lambda>new_info.
         and_then (diff_infos fromstatus old_info new_info) (\<lambda>action.
         (case action of
            None \<Rightarrow> Inr None
          | Some act \<Rightarrow> Inr (Some (Name added_proto, act, new_info))))))"

text \<open>
  The part of \<^verbatim>\<open>main\<close> that fills \<^verbatim>\<open>updates\<close>, from the four dictionaries to the list
  that the sending loop walks.
\<close>

definition collect_updates ::
  "fromstatus \<Rightarrow> args \<Rightarrow> int snapshot \<Rightarrow> string snapshot \<Rightarrow> int snapshot \<Rightarrow> string snapshot
     \<Rightarrow> error + update list" where
  "collect_updates fromstatus a old_accepted old_proto new_accepted new_proto =
     and_then (for_each (common_body fromstatus a old_accepted new_accepted)
                 (common_xeps old_accepted new_accepted) []) (\<lambda>updates.
     and_then (for_each (added_body fromstatus new_accepted)
                 (added_xeps old_accepted new_accepted) updates) (\<lambda>updates.
     if include_protoxep a
     then for_each (proto_body fromstatus new_proto) (added_xeps old_proto new_proto) updates
     else Inr updates))"

subsection \<open>Notification composer\<close>














text \<open>
  \<^verbatim>\<open>wraptext\<close>. \<^verbatim>\<open>textwrap.wrap\<close> belongs to Python's library and is the parameter
  \<open>wrap\<close>: it turns one line into the list of the lines it is broken into.
\<close>

fun join :: "string \<Rightarrow> string list \<Rightarrow> string" where
  "join sep [] = []"
| "join sep [x] = x"
| "join sep (x # y # ys) = x @ sep @ join sep (y # ys)"












subsection \<open>The specification's side\<close>







text \<open>
  What a \<^verbatim>\<open>for\<close> loop appends to \<^verbatim>\<open>updates\<close> when no pass raises: the entries of the
  passes, in the order of the keys.
\<close>

definition appended :: "('k \<Rightarrow> error + update option) \<Rightarrow> 'k list \<Rightarrow> update list" where
  "appended body ks =
     concat (map (\<lambda>k. case body k of Inr (Some u) \<Rightarrow> [u] | _ \<Rightarrow> []) ks)"


subsection \<open>Sample data\<close>

text \<open>
  Instances of the parameters, for checking statements on sample data: a
  \<^verbatim>\<open>fromstatus\<close> that knows the deferred status and the statuses behind \<open>OTHER_STATUS\<close>
  and raises for the rest, and values for the members of the two enumerations.
\<close>

definition sample_fromstatus :: fromstatus where
  "sample_fromstatus s =
     (case s of
        Some Status.DEFERRED \<Rightarrow> Inr (Some Action.DEFER)
      | Some (OTHER_STATUS n) \<Rightarrow> Inr (Some (OTHER_ACTION n))
      | _ \<Rightarrow> Inl KeyError)"




text \<open>
  A record with every key present, as a snapshot holds it for an accepted document, given
  its status, last-call date and version; and the same record without a last revision.
\<close>

definition sample_info :: "Status \<Rightarrow> string option \<Rightarrow> string \<Rightarrow> info" where
  "sample_info st lc ver =
     \<lparr> status = Some st, accepted = Some True, number = Some (Num 45),
       title = Some ''Multi-User Chat'', abstract = Some ''Rooms.'',
       xep_type = Some ''Standards Track'', approver = Some ''Council'',
       protoname = Some ''muc'', last_call = Some lc,
       last_revision = Some \<lparr> version = Some (Some ver), remark = Some ''Fix typos'',
                               initials = Some ''psa'' \<rparr> \<rparr>"

definition sample_info_unversioned :: "Status \<Rightarrow> info" where
  "sample_info_unversioned st = (sample_info st None ''0'')\<lparr> last_revision := None \<rparr>"

definition sample_args :: "bool \<Rightarrow> bool \<Rightarrow> args" where
  "sample_args editorial non_editorial =
     \<lparr> include_protoxep = True, include_editorial = editorial,
       include_non_editorial = non_editorial \<rparr>"

section \<open>Properties\<close>

subsection \<open>Auxiliary facts\<close>

lemma and_then_simps: "and_then (Inl e) f = Inl e" "and_then (Inr x) f = f x"
  by (simp_all add: and_then_def)


lemmas sample_defs = sample_info_def sample_info_unversioned_def sample_args_def
  sample_fromstatus_def extract_version_def

lemma length_decompose_version: "3 \<le> length (decompose_version s)"
  by (simp add: decompose_version_def Let_def)

lemma decompose_version_padded:
  "decompose_version s =
     str_split (CHR ''.'') s @ replicate (3 - length (str_split (CHR ''.'') s)) ''0''"
  by (simp add: decompose_version_def Let_def)

lemma str_split_not_Nil: "str_split sep s \<noteq> []"
  by (induction s) (auto split: list.splits)

lemma str_split_no_sep: "w \<in> set (str_split sep s) \<Longrightarrow> sep \<notin> set w"
  by (induction s arbitrary: w) (auto split: list.splits if_splits)

lemma join_Cons: "ws \<noteq> [] \<Longrightarrow> join sep (w # ws) = w @ sep @ join sep ws"
  by (cases ws) simp_all

text \<open>Joining the pieces of a split with the separator gives the string back.\<close>

lemma join_str_split: "join [sep] (str_split sep s) = s"
proof (induction s)
  case Nil
  show ?case by simp
next
  case (Cons c cs)
  show ?case
  proof (cases "c = sep")
    case True
    with Cons show ?thesis by (simp add: join_Cons str_split_not_Nil)
  next
    case False
    obtain w ws where ws: "str_split sep cs = w # ws"
      using str_split_not_Nil [of sep cs] by (cases "str_split sep cs") auto
    with Cons False show ?thesis by (cases ws) auto
  qed
qed

subsection \<open>The classifier\<close>





text \<open>
  Claim C4. Whatever else the two records hold: a document that goes from deferred to
  experimental is classified as an update, and a document that goes from proposed to
  experimental yields no action at all.
\<close>

theorem revival_and_withdrawal:
  "(status old = Some Status.DEFERRED \<and> status new = Some Status.EXPERIMENTAL
      \<longrightarrow> diff_infos fromstatus old new = Inr (Some Action.UPDATE)) \<and>
   (status old = Some Status.PROPOSED \<and> status new = Some Status.EXPERIMENTAL
      \<longrightarrow> diff_infos fromstatus old new = Inr None)"
  by (simp add: diff_infos_def)

theorem revival_and_withdrawal_witness:
  "diff_infos sample_fromstatus (sample_info Status.DEFERRED None ''0.3'')
       (sample_info Status.EXPERIMENTAL None ''0.4'') = Inr (Some Action.UPDATE) \<and>
   diff_infos sample_fromstatus (sample_info Status.PROPOSED None ''0.3'')
       (sample_info Status.EXPERIMENTAL None ''0.4'') = Inr None"
  using revival_and_withdrawal [of "sample_info Status.DEFERRED None ''0.3''"
      "sample_info Status.EXPERIMENTAL None ''0.4''" sample_fromstatus]
    revival_and_withdrawal [of "sample_info Status.PROPOSED None ''0.3''"
      "sample_info Status.EXPERIMENTAL None ''0.4''" sample_fromstatus]
  by (simp add: sample_defs)




subsection \<open>The significance filter\<close>

text \<open>
  Claim C2. A version is decomposed into its pieces between the dots, filled up with
  \<^verbatim>\<open>"0"\<close> to three pieces at least. Without an old version the change is not editorial,
  and the answer is the flag for non-editorial changes. With an old and a new version the
  change is editorial exactly when the first two pieces agree, and the answer is the flag
  of that class. The five examples of the specification come out as it says.
\<close>

theorem filter_bump_level_spec:
  "3 \<le> length (decompose_version s) \<and>
   decompose_version s =
     str_split (CHR ''.'') s @ replicate (3 - length (str_split (CHR ''.'') s)) ''0'' \<and>
   join ''.'' (str_split (CHR ''.'') s) = s \<and>
   filter_bump_level None nv0 keep_editorial keep_other = Inr keep_other \<and>
   filter_bump_level (Some ov) (Some nv) keep_editorial keep_other
     = Inr (if take 2 (decompose_version ov) = take 2 (decompose_version nv)
            then keep_editorial else keep_other) \<and>
   filter_bump_level (Some ''1.2.3'') (Some ''1.2.9'') False True = Inr False \<and>
   filter_bump_level (Some ''1.2.3'') (Some ''2.0.0'') True False = Inr False \<and>
   filter_bump_level (Some ''1.2.3'') (Some ''1.2.9'') True True = Inr True \<and>
   filter_bump_level (Some ''1.2.3'') (Some ''2.0.0'') True True = Inr True \<and>
   filter_bump_level None (Some ''1.0.0'') False True = Inr True"
proof -
  have ex: "decompose_version ''1.2.3'' = [''1'', ''2'', ''3'']"
    "decompose_version ''1.2.9'' = [''1'', ''2'', ''9'']"
    "decompose_version ''2.0.0'' = [''2'', ''0'', ''0'']"
    by (simp_all add: decompose_version_def)
  have gen: "filter_bump_level (Some a) (Some b) e n
     = Inr (if take 2 (decompose_version a) = take 2 (decompose_version b) then e else n)" for a b e n
    by (simp add: filter_bump_level_def)
  have none: "filter_bump_level None v e n = Inr n" for v e n
    by (simp add: filter_bump_level_def)
  show ?thesis
    unfolding gen none ex
    using length_decompose_version [of s] decompose_version_padded [of s]
      join_str_split [of "CHR ''.''" s]
    by simp
qed

theorem filter_bump_level_spec_witness:
  "decompose_version ''1.2'' = [''1'', ''2'', ''0''] \<and>
   filter_bump_level (Some ''1.2'') (Some ''1.2.1'') False True = Inr False"
  using filter_bump_level_spec [of "''1.2''" None False True "''1.2''" "''1.2.1''"]
  by (simp add: decompose_version_def)

subsection \<open>The reporting loop\<close>

lemma appended_simps:
  "appended body [] = []"
  "appended body (k # ks) = (case body k of Inr (Some u) \<Rightarrow> [u] | _ \<Rightarrow> []) @ appended body ks"
  by (simp_all add: appended_def)

lemma for_each_iff:
  "for_each body ks acc = Inr r \<longleftrightarrow>
     (\<forall>k\<in>set ks. \<exists>out. body k = Inr out) \<and> r = acc @ appended body ks"
proof (induction ks arbitrary: acc)
  case Nil
  show ?case by (auto simp: appended_simps)
next
  case (Cons k ks)
  show ?case
  proof (cases "body k")
    case (Inl e)
    then show ?thesis by simp
  next
    case (Inr out)
    then show ?thesis
      by (cases out) (simp_all add: Cons.IH appended_simps)
  qed
qed

lemma for_each_Inl:
  "for_each body ks acc = Inl e \<Longrightarrow> \<exists>k\<in>set ks. body k = Inl e"
proof (induction ks arbitrary: acc)
  case Nil
  then show ?case by simp
next
  case (Cons k ks)
  then show ?case
    by (cases "body k") (auto split: option.splits)
qed

lemma for_each_raises:
  assumes "k \<in> set ks" and "body k = Inl e"
  shows "\<exists>e'. for_each body ks acc = Inl e'"
proof (cases "for_each body ks acc")
  case (Inl e')
  then show ?thesis by blast
next
  case (Inr r)
  then have "\<exists>out. body k = Inr out"
    using assms(1) unfolding for_each_iff by blast
  with assms(2) show ?thesis by simp
qed

lemma set_appended:
  "set (appended body ks) = {u. \<exists>k\<in>set ks. body k = Inr (Some u)}"
  by (induction ks) (auto simp: appended_simps split: sum.splits option.splits)

lemma collect_updates_iff:
  "collect_updates fs a oa op na np = Inr ups \<longleftrightarrow>
     (\<forall>k\<in>set (common_xeps oa na). \<exists>out. common_body fs a oa na k = Inr out) \<and>
     (\<forall>k\<in>set (added_xeps oa na). \<exists>out. added_body fs na k = Inr out) \<and>
     (include_protoxep a \<longrightarrow> (\<forall>k\<in>set (added_xeps op np). \<exists>out. proto_body fs np k = Inr out)) \<and>
     ups = appended (common_body fs a oa na) (common_xeps oa na)
           @ appended (added_body fs na) (added_xeps oa na)
           @ (if include_protoxep a then appended (proto_body fs np) (added_xeps op np) else [])"
  (is "?L \<longleftrightarrow> ?A \<and> ?B \<and> ?C \<and> ?D")
proof (cases "for_each (common_body fs a oa na) (common_xeps oa na) []")
  case (Inl e)
  from for_each_Inl [OF Inl] have "\<not> ?A" by fastforce
  moreover from Inl have "\<not> ?L" by (simp add: collect_updates_def and_then_def)
  ultimately show ?thesis by blast
next
  case c: (Inr r1)
  then have A: "?A" and r1: "r1 = appended (common_body fs a oa na) (common_xeps oa na)"
    by (simp_all add: for_each_iff)
  show ?thesis
  proof (cases "for_each (added_body fs na) (added_xeps oa na) r1")
    case (Inl e)
    from for_each_Inl [OF Inl] have "\<not> ?B" by fastforce
    moreover from c Inl have "\<not> ?L" by (simp add: collect_updates_def and_then_def)
    ultimately show ?thesis by blast
  next
    case d: (Inr r2)
    then have B: "?B" and r2: "r2 = r1 @ appended (added_body fs na) (added_xeps oa na)"
      by (simp_all add: for_each_iff)
    have "collect_updates fs a oa op na np =
            (if include_protoxep a
             then for_each (proto_body fs np) (added_xeps op np) r2 else Inr r2)"
      by (simp add: collect_updates_def and_then_def c d)
    then have "?L \<longleftrightarrow> ?C \<and> ?D"
      unfolding r1 r2 by (auto simp: for_each_iff)
    with A B show ?thesis by blast
  qed
qed


lemma set_keys: "set (keys d) = dom (map_of d)"
  by (simp add: keys_def dom_map_of_conv_image_fst)

lemma distinct_keys: "distinct (keys d)"
  by (simp add: keys_def)

lemma set_common_xeps: "set (common_xeps old new) = set (keys old) \<inter> set (keys new)"
  by (auto simp: common_xeps_def)

lemma set_added_xeps: "set (added_xeps old new) = set (keys new) - set (keys old)"
  by (auto simp: added_xeps_def)

lemma distinct_common_xeps: "distinct (common_xeps old new)"
  by (simp add: common_xeps_def distinct_keys)

lemma distinct_added_xeps: "distinct (added_xeps old new)"
  by (simp add: added_xeps_def distinct_keys)

lemma common_body_eq:
  assumes "map_of oa k = Some oi" and "map_of na k = Some ni"
  shows "common_body fs a oa na k =
     (case diff_infos fs oi ni of
        Inl e \<Rightarrow> Inl e
      | Inr None \<Rightarrow> Inr None
      | Inr (Some act) \<Rightarrow>
          if act = Action.UPDATE
          then (case filter_bump_level (extract_version oi) (extract_version ni)
                       (include_editorial a) (include_non_editorial a) of
                  Inl e \<Rightarrow> Inl e
                | Inr keep \<Rightarrow> Inr (if keep then Some (Num k, act, ni) else None))
          else Inr (Some (Num k, act, ni)))"
  using assms
  by (simp add: common_body_def and_then_def subscript_def split: sum.splits option.splits)

lemma added_body_eq:
  assumes "map_of na k = Some ni"
  shows "added_body fs na k =
     (case diff_infos fs (dummy_info (Num k)) ni of
        Inl e \<Rightarrow> Inl e
      | Inr None \<Rightarrow> Inr None
      | Inr (Some act) \<Rightarrow> Inr (Some (Num k, act, ni)))"
  using assms
  by (simp add: added_body_def and_then_def subscript_def Let_def split: sum.splits option.splits)

lemma proto_body_eq:
  assumes "map_of np p = Some ni"
  shows "proto_body fs np p =
     (case diff_infos fs (dummy_info (Name ''xxxx'')) ni of
        Inl e \<Rightarrow> Inl e
      | Inr None \<Rightarrow> Inr None
      | Inr (Some act) \<Rightarrow> Inr (Some (Name p, act, ni)))"
  using assms
  by (simp add: proto_body_def and_then_def subscript_def Let_def split: sum.splits option.splits)

lemma common_body_id: "common_body fs a oa na k = Inr (Some u) \<Longrightarrow> fst u = Num k"
  by (auto simp: common_body_def and_then_def subscript_def
      split: sum.splits option.splits if_splits)

lemma added_body_id: "added_body fs na k = Inr (Some u) \<Longrightarrow> fst u = Num k"
  by (auto simp: added_body_def and_then_def subscript_def Let_def
      split: sum.splits option.splits if_splits)

lemma proto_body_id: "proto_body fs np p = Inr (Some u) \<Longrightarrow> fst u = Name p"
  by (auto simp: proto_body_def and_then_def subscript_def Let_def
      split: sum.splits option.splits if_splits)

lemma fst_appended:
  assumes "\<And>k u. body k = Inr (Some u) \<Longrightarrow> fst u = f k"
  shows "fst ` set (appended body ks) \<subseteq> f ` set ks"
  using assms by (fastforce simp: set_appended)




lemma filter_key_appended:
  assumes id: "\<And>k u. body k = Inr (Some u) \<Longrightarrow> fst u = f k" and "inj f" and "distinct ks"
  shows "filter (\<lambda>u. fst u = f k) (appended body ks) =
           (if k \<in> set ks then (case body k of Inr (Some u) \<Rightarrow> [u] | _ \<Rightarrow> []) else [])"
  using assms(3)
proof (induction ks)
  case Nil
  show ?case by (simp add: appended_simps)
next
  case (Cons j ks)
  have own: "filter (\<lambda>u. fst u = f k) (case body j of Inr (Some u) \<Rightarrow> [u] | _ \<Rightarrow> [])
      = (if j = k then (case body j of Inr (Some u) \<Rightarrow> [u] | _ \<Rightarrow> []) else [])"
    using id [of j] assms(2) by (auto split: sum.splits option.splits dest: injD)
  from Cons have IH: "filter (\<lambda>u. fst u = f k) (appended body ks) =
           (if k \<in> set ks then (case body k of Inr (Some u) \<Rightarrow> [u] | _ \<Rightarrow> []) else [])"
    by simp
  from Cons.prems have "j \<notin> set ks" by simp
  then show ?case
    by (auto simp: appended_simps own IH)
qed

lemma filter_other_appended:
  assumes "\<And>k u. body k = Inr (Some u) \<Longrightarrow> fst u = f k" and "x \<notin> f ` set ks"
  shows "filter (\<lambda>u. fst u = x) (appended body ks) = []"
proof -
  have "fst ` set (appended body ks) \<subseteq> f ` set ks"
    using assms(1) by (rule fst_appended)
  with assms(2) have "\<forall>u\<in>set (appended body ks). fst u \<noteq> x" by blast
  then show ?thesis by (simp add: filter_empty_conv)
qed


lemma map_of_delete: "k' \<noteq> k \<Longrightarrow> map_of (filter (\<lambda>e. fst e \<noteq> k) d) k' = map_of d k'"
  by (induction d) auto

lemma keys_delete: "keys (filter (\<lambda>e. fst e \<noteq> k) d) = filter (\<lambda>j. j \<noteq> k) (keys d)"
proof -
  have "map fst (filter (\<lambda>e. fst e \<noteq> k) d) = filter (\<lambda>j. j \<noteq> k) (map fst d)"
    by (induction d) auto
  then show ?thesis by (simp add: keys_def remdups_filter)
qed

lemma for_each_cong:
  "(\<And>k. k \<in> set ks \<Longrightarrow> body k = body' k) \<Longrightarrow> for_each body ks acc = for_each body' ks acc"
  by (induction ks arbitrary: acc) (auto split: sum.splits option.splits)

lemma collect_updates_delete_old:
  assumes "k \<notin> set (keys na)"
  shows "collect_updates fs a (filter (\<lambda>e. fst e \<noteq> k) oa) op na np
           = collect_updates fs a oa op na np"
proof -
  let ?oa = "filter (\<lambda>e. fst e \<noteq> k) oa"
  have c: "common_xeps ?oa na = common_xeps oa na"
    using assms by (auto simp: common_xeps_def keys_delete intro: filter_cong)
  have a: "added_xeps ?oa na = added_xeps oa na"
    using assms by (auto simp: added_xeps_def keys_delete intro: filter_cong)
  have b: "common_body fs a ?oa na j = common_body fs a oa na j"
    if "j \<in> set (common_xeps oa na)" for j
  proof -
    from that assms have "j \<noteq> k" by (auto simp: set_common_xeps)
    then show ?thesis by (simp add: common_body_def map_of_delete)
  qed
  have "for_each (common_body fs a ?oa na) (common_xeps oa na) []
      = for_each (common_body fs a oa na) (common_xeps oa na) []"
    by (rule for_each_cong) (rule b)
  then show ?thesis
    by (simp add: collect_updates_def c a)
qed


lemma queue_entries:
  assumes "collect_updates fs a oa op na np = Inr ups"
  shows
    "(\<forall>k oi ni. map_of oa k = Some oi \<and> map_of na k = Some ni \<longrightarrow>
        (\<exists>action. diff_infos fs oi ni = Inr action \<and>
           filter (\<lambda>u. fst u = Num k) ups =
             (case action of
                None \<Rightarrow> []
              | Some act \<Rightarrow>
                  if act = Action.UPDATE \<and>
                     filter_bump_level (extract_version oi) (extract_version ni)
                       (include_editorial a) (include_non_editorial a) = Inr False
                  then [] else [(Num k, act, ni)]))) \<and>
     (\<forall>k ni. map_of oa k = None \<and> map_of na k = Some ni \<longrightarrow>
        (\<exists>action. diff_infos fs (dummy_info (Num k)) ni = Inr action \<and>
           filter (\<lambda>u. fst u = Num k) ups =
             (case action of None \<Rightarrow> [] | Some act \<Rightarrow> [(Num k, act, ni)]))) \<and>
     (\<forall>p ni. include_protoxep a \<and> map_of op p = None \<and> map_of np p = Some ni \<longrightarrow>
        (\<exists>action. diff_infos fs (dummy_info (Name ''xxxx'')) ni = Inr action \<and>
           filter (\<lambda>u. fst u = Name p) ups =
             (case action of None \<Rightarrow> [] | Some act \<Rightarrow> [(Name p, act, ni)]))) \<and>
     (\<forall>p. \<not> include_protoxep a \<or> map_of op p \<noteq> None \<or> map_of np p = None \<longrightarrow>
        filter (\<lambda>u. fst u = Name p) ups = []) \<and>
     (\<forall>k. map_of na k = None \<longrightarrow>
        filter (\<lambda>u. fst u = Num k) ups = [] \<and>
        collect_updates fs a (filter (\<lambda>e. fst e \<noteq> k) oa) op na np = Inr ups)"
proof -
  let ?A = "appended (common_body fs a oa na) (common_xeps oa na)"
  let ?B = "appended (added_body fs na) (added_xeps oa na)"
  let ?P = "appended (proto_body fs np) (added_xeps op np)"
  let ?C = "if include_protoxep a then ?P else []"
  from assms have ok: "\<forall>k\<in>set (common_xeps oa na). \<exists>out. common_body fs a oa na k = Inr out"
    and okB: "\<forall>k\<in>set (added_xeps oa na). \<exists>out. added_body fs na k = Inr out"
    and okC: "include_protoxep a \<longrightarrow>
                (\<forall>k\<in>set (added_xeps op np). \<exists>out. proto_body fs np k = Inr out)"
    and ups: "ups = ?A @ ?B @ ?C"
    by (simp_all add: collect_updates_iff)
  have injN: "inj Num" and injS: "inj Name" by (simp_all add: inj_on_def)
  have fA: "filter (\<lambda>u. fst u = Num k) ?A =
      (if k \<in> set (common_xeps oa na)
       then (case common_body fs a oa na k of Inr (Some u) \<Rightarrow> [u] | _ \<Rightarrow> []) else [])" for k
    by (rule filter_key_appended [OF common_body_id injN distinct_common_xeps])
  have fB: "filter (\<lambda>u. fst u = Num k) ?B =
      (if k \<in> set (added_xeps oa na)
       then (case added_body fs na k of Inr (Some u) \<Rightarrow> [u] | _ \<Rightarrow> []) else [])" for k
    by (rule filter_key_appended [OF added_body_id injN distinct_added_xeps])
  have fP: "filter (\<lambda>u. fst u = Name p) ?P =
      (if p \<in> set (added_xeps op np)
       then (case proto_body fs np p of Inr (Some u) \<Rightarrow> [u] | _ \<Rightarrow> []) else [])" for p
    by (rule filter_key_appended [OF proto_body_id injS distinct_added_xeps])
  have fPn: "filter (\<lambda>u. fst u = Num k) ?P = []" for k
    by (rule filter_other_appended [OF proto_body_id]) auto
  have fAs: "filter (\<lambda>u. fst u = Name p) ?A = []" for p
    by (rule filter_other_appended [OF common_body_id]) auto
  have fBs: "filter (\<lambda>u. fst u = Name p) ?B = []" for p
    by (rule filter_other_appended [OF added_body_id]) auto
  have num: "filter (\<lambda>u. fst u = Num k) ups
      = filter (\<lambda>u. fst u = Num k) ?A @ filter (\<lambda>u. fst u = Num k) ?B" for k
    by (simp add: ups fPn)
  have name: "filter (\<lambda>u. fst u = Name p) ups = (if include_protoxep a
      then filter (\<lambda>u. fst u = Name p) ?P else [])" for p
    by (simp add: ups fAs fBs)
  have 1: "\<exists>action. diff_infos fs oi ni = Inr action \<and>
           filter (\<lambda>u. fst u = Num k) ups =
             (case action of
                None \<Rightarrow> []
              | Some act \<Rightarrow>
                  if act = Action.UPDATE \<and>
                     filter_bump_level (extract_version oi) (extract_version ni)
                       (include_editorial a) (include_non_editorial a) = Inr False
                  then [] else [(Num k, act, ni)])"
    if oi: "map_of oa k = Some oi" and ni: "map_of na k = Some ni" for k oi ni
  proof -
    from oi ni have kc: "k \<in> set (common_xeps oa na)" and ka: "k \<notin> set (added_xeps oa na)"
      by (auto simp: set_common_xeps set_added_xeps set_keys)
    with ok obtain out where out: "common_body fs a oa na k = Inr out" by blast
    have f: "filter (\<lambda>u. fst u = Num k) ups = (case out of Some u \<Rightarrow> [u] | None \<Rightarrow> [])"
      by (simp add: num fA fB kc ka out split: option.splits)
    from out obtain action where d: "diff_infos fs oi ni = Inr action"
      by (auto simp: common_body_eq [OF oi ni] split: sum.splits)
    show ?thesis
    proof (cases action)
      case None
      with out d have "out = None" by (simp add: common_body_eq [OF oi ni])
      with None d f show ?thesis by simp
    next
      case (Some act)
      show ?thesis
      proof (cases "act = Action.UPDATE")
        case False
        with Some out d have "out = Some (Num k, act, ni)"
          by (simp add: common_body_eq [OF oi ni])
        with False Some d f show ?thesis by simp
      next
        case True
        with Some out d obtain keep where
          "filter_bump_level (extract_version oi) (extract_version ni)
             (include_editorial a) (include_non_editorial a) = Inr keep"
          "out = (if keep then Some (Num k, act, ni) else None)"
          by (auto simp: common_body_eq [OF oi ni] split: sum.splits)
        with True Some d f show ?thesis by simp
      qed
    qed
  qed
  have 2: "\<exists>action. diff_infos fs (dummy_info (Num k)) ni = Inr action \<and>
           filter (\<lambda>u. fst u = Num k) ups =
             (case action of None \<Rightarrow> [] | Some act \<Rightarrow> [(Num k, act, ni)])"
    if oi: "map_of oa k = None" and ni: "map_of na k = Some ni" for k ni
  proof -
    from oi ni have kc: "k \<notin> set (common_xeps oa na)" and ka: "k \<in> set (added_xeps oa na)"
      by (auto simp: set_common_xeps set_added_xeps set_keys)
    with okB obtain out where out: "added_body fs na k = Inr out" by blast
    have f: "filter (\<lambda>u. fst u = Num k) ups = (case out of Some u \<Rightarrow> [u] | None \<Rightarrow> [])"
      by (simp add: num fA fB kc ka out split: option.splits)
    from out obtain action where d: "diff_infos fs (dummy_info (Num k)) ni = Inr action"
      by (auto simp: added_body_eq [OF ni] split: sum.splits)
    with out have "out = (case action of None \<Rightarrow> None | Some act \<Rightarrow> Some (Num k, act, ni))"
      by (cases action) (simp_all add: added_body_eq [OF ni])
    with d f show ?thesis by (cases action) simp_all
  qed
  have 3: "\<exists>action. diff_infos fs (dummy_info (Name ''xxxx'')) ni = Inr action \<and>
           filter (\<lambda>u. fst u = Name p) ups =
             (case action of None \<Rightarrow> [] | Some act \<Rightarrow> [(Name p, act, ni)])"
    if ip: "include_protoxep a" and oi: "map_of op p = None" and ni: "map_of np p = Some ni"
    for p ni
  proof -
    from oi ni have ka: "p \<in> set (added_xeps op np)"
      by (auto simp: set_added_xeps set_keys)
    with okC ip obtain out where out: "proto_body fs np p = Inr out" by blast
    have f: "filter (\<lambda>u. fst u = Name p) ups = (case out of Some u \<Rightarrow> [u] | None \<Rightarrow> [])"
      by (simp add: name fP ip ka out split: option.splits)
    from out obtain action where d: "diff_infos fs (dummy_info (Name ''xxxx'')) ni = Inr action"
      by (auto simp: proto_body_eq [OF ni] split: sum.splits)
    with out have "out = (case action of None \<Rightarrow> None | Some act \<Rightarrow> Some (Name p, act, ni))"
      by (cases action) (simp_all add: proto_body_eq [OF ni])
    with d f show ?thesis by (cases action) simp_all
  qed
  have 4: "filter (\<lambda>u. fst u = Name p) ups = []"
    if "\<not> include_protoxep a \<or> map_of op p \<noteq> None \<or> map_of np p = None" for p
  proof (cases "include_protoxep a")
    case False
    then show ?thesis by (simp add: name)
  next
    case True
    with that have "p \<notin> set (added_xeps op np)"
      by (auto simp: set_added_xeps set_keys)
    then show ?thesis by (simp add: name fP)
  qed
  have 5: "filter (\<lambda>u. fst u = Num k) ups = [] \<and>
        collect_updates fs a (filter (\<lambda>e. fst e \<noteq> k) oa) op na np = Inr ups"
    if "map_of na k = None" for k
  proof -
    from that have n: "k \<notin> set (keys na)" by (auto simp: set_keys)
    then have "k \<notin> set (common_xeps oa na)" "k \<notin> set (added_xeps oa na)"
      by (auto simp: set_common_xeps set_added_xeps)
    then have "filter (\<lambda>u. fst u = Num k) ups = []" by (simp add: num fA fB)
    with collect_updates_delete_old [OF n] assms show ?thesis by simp
  qed
  from 1 2 3 4 5 show ?thesis by blast
qed








text \<open>
  Claim C7. \<^verbatim>\<open>filter_bump_level\<close> returns exactly when the new version is not
  \<^verbatim>\<open>None\<close> or the old one is; with an old version and no new one it raises
  \<^verbatim>\<open>AttributeError\<close>. The loop reaches that case: when the version of a document of
  both snapshots disappears and the classifier answers with an update, the pass raises
  and so does the whole loop.
\<close>

theorem filter_bump_level_partial:
  "((\<exists>r. filter_bump_level ov nv keep_editorial keep_other = Inr r)
      \<longleftrightarrow> (ov \<noteq> None \<longrightarrow> nv \<noteq> None)) \<and>
   filter_bump_level (Some v) None keep_editorial keep_other = Inl AttributeError \<and>
   (\<forall>k oi ni. k \<in> set (common_xeps oa na) \<and> map_of oa k = Some oi \<and> map_of na k = Some ni \<and>
       diff_infos fs oi ni = Inr (Some Action.UPDATE) \<and>
       extract_version oi \<noteq> None \<and> extract_version ni = None
       \<longrightarrow> common_body fs a oa na k = Inl AttributeError \<and>
           (\<exists>e. collect_updates fs a oa op na np = Inl e))"
proof -
  have 1: "(\<exists>r. filter_bump_level ov nv keep_editorial keep_other = Inr r)
      \<longleftrightarrow> (ov \<noteq> None \<longrightarrow> nv \<noteq> None)"
    by (cases ov; cases nv) (auto simp: filter_bump_level_def)
  have 2: "filter_bump_level (Some v) None e n = Inl AttributeError" for v e n
    by (simp add: filter_bump_level_def)
  have 3: "common_body fs a oa na k = Inl AttributeError \<and>
           (\<exists>e. collect_updates fs a oa op na np = Inl e)"
    if k: "k \<in> set (common_xeps oa na)" and oi: "map_of oa k = Some oi"
      and ni: "map_of na k = Some ni" and d: "diff_infos fs oi ni = Inr (Some Action.UPDATE)"
      and ov: "extract_version oi \<noteq> None" and nv: "extract_version ni = None" for k oi ni
  proof -
    from ov obtain v where v: "extract_version oi = Some v" by blast
    have body: "common_body fs a oa na k = Inl AttributeError"
      by (simp add: common_body_eq [OF oi ni] d v nv 2)
    have "collect_updates fs a oa op na np \<noteq> Inr ups" for ups
    proof
      assume "collect_updates fs a oa op na np = Inr ups"
      then have "\<forall>k\<in>set (common_xeps oa na). \<exists>out. common_body fs a oa na k = Inr out"
        by (simp add: collect_updates_iff)
      with k body show False by force
    qed
    then have "\<exists>e. collect_updates fs a oa op na np = Inl e"
      by (cases "collect_updates fs a oa op na np") auto
    with body show ?thesis by blast
  qed
  from 1 2 3 show ?thesis by blast
qed

theorem filter_bump_level_partial_witness:
  "common_body sample_fromstatus (sample_args True True)
     [(45, sample_info Status.EXPERIMENTAL None ''1.0'')]
     [(45, sample_info_unversioned Status.EXPERIMENTAL)] 45 = Inl AttributeError \<and>
   collect_updates sample_fromstatus (sample_args True True)
     [(45, sample_info Status.EXPERIMENTAL None ''1.0'')] []
     [(45, sample_info_unversioned Status.EXPERIMENTAL)] [] = Inl AttributeError"
proof -
  let ?oa = "[(45::int, sample_info Status.EXPERIMENTAL None ''1.0'')]"
  let ?na = "[(45::int, sample_info_unversioned Status.EXPERIMENTAL)]"
  have k: "45 \<in> set (common_xeps ?oa ?na)"
    by (simp add: common_xeps_def keys_def)
  have d: "diff_infos sample_fromstatus (sample_info Status.EXPERIMENTAL None ''1.0'')
             (sample_info_unversioned Status.EXPERIMENTAL) = Inr (Some Action.UPDATE)"
    by (simp add: diff_infos_def sample_defs and_then_simps)
  have v: "extract_version (sample_info Status.EXPERIMENTAL None ''1.0'') \<noteq> None"
    "extract_version (sample_info_unversioned Status.EXPERIMENTAL) = None"
    by (simp_all add: sample_defs)
  have run: "collect_updates sample_fromstatus (sample_args True True) ?oa [] ?na []
               = Inl AttributeError"
    by code_simp
  from filter_bump_level_partial [of "Some ''1.0''" None True True "''1.0''" ?oa ?na
      sample_fromstatus "sample_args True True" "[]" "[]"] k d v run
  show ?thesis by simp
qed

text \<open>
  Claim C8. A document of both snapshots goes from deferred to experimental, and its two
  records carry version strings that agree in their first two pieces (the same string, or
  a change at patch level or below). Then the classifier answers with an update, the
  filter takes it as editorial, so that its answer is the flag for editorial changes, and
  when editorial changes are excluded the pass queues nothing and the document has no
  entry in the queue: nothing announces the revival. With editorial changes included the
  update is queued.
\<close>

theorem revival_unannounced:
  assumes "map_of oa k = Some oi" and "map_of na k = Some ni"
    and "status oi = Some Status.DEFERRED" and "status ni = Some Status.EXPERIMENTAL"
    and "last_revision oi = Some ro" and "version ro = Some (Some ov)"
    and "last_revision ni = Some rn" and "version rn = Some (Some nv)"
    and "take 2 (decompose_version ov) = take 2 (decompose_version nv)"
  shows "diff_infos fs oi ni = Inr (Some Action.UPDATE) \<and>
         filter_bump_level (extract_version oi) (extract_version ni) keep_editorial keep_other
           = Inr keep_editorial \<and>
         (\<not> include_editorial a \<longrightarrow>
            common_body fs a oa na k = Inr None \<and>
            (\<forall>ups. collect_updates fs a oa op na np = Inr ups
                   \<longrightarrow> filter (\<lambda>u. fst u = Num k) ups = [])) \<and>
         (include_editorial a \<longrightarrow>
            common_body fs a oa na k = Inr (Some (Num k, Action.UPDATE, ni)))"
proof -
  have d: "diff_infos fs oi ni = Inr (Some Action.UPDATE)"
    using assms(3,4) by (simp add: diff_infos_def)
  have v: "extract_version oi = Some ov" "extract_version ni = Some nv"
    using assms(5-8) by (simp_all add: extract_version_def)
  have f: "filter_bump_level (extract_version oi) (extract_version ni) e n = Inr e" for e n
    using assms(9) by (simp add: v filter_bump_level_def)
  have body: "common_body fs a oa na k
      = Inr (if include_editorial a then Some (Num k, Action.UPDATE, ni) else None)"
    by (simp add: common_body_eq [OF assms(1,2)] d f)
  have "filter (\<lambda>u. fst u = Num k) ups = []"
    if e: "\<not> include_editorial a" and run: "collect_updates fs a oa op na np = Inr ups" for ups
  proof -
    from queue_entries [OF run]
    have "\<forall>k oi ni. map_of oa k = Some oi \<and> map_of na k = Some ni \<longrightarrow>
        (\<exists>action. diff_infos fs oi ni = Inr action \<and>
           filter (\<lambda>u. fst u = Num k) ups =
             (case action of
                None \<Rightarrow> []
              | Some act \<Rightarrow>
                  if act = Action.UPDATE \<and>
                     filter_bump_level (extract_version oi) (extract_version ni)
                       (include_editorial a) (include_non_editorial a) = Inr False
                  then [] else [(Num k, act, ni)]))"
      by (elim conjE)
    from this [rule_format, of k oi ni] assms(1,2) d f e show ?thesis by auto
  qed
  with d f body show ?thesis by simp
qed

theorem revival_unannounced_witness:
  "collect_updates sample_fromstatus (sample_args False True)
     [(45, sample_info Status.DEFERRED None ''0.3.1'')] []
     [(45, sample_info Status.EXPERIMENTAL None ''0.3.2'')] [] = Inr [] \<and>
   common_body sample_fromstatus (sample_args False True)
     [(45, sample_info Status.DEFERRED None ''0.3.1'')]
     [(45, sample_info Status.EXPERIMENTAL None ''0.3.2'')] 45 = Inr None \<and>
   filter_bump_level (Some ''0.3.1'') (Some ''0.3.2'') False True = Inr False"
proof -
  let ?oa = "[(45::int, sample_info Status.DEFERRED None ''0.3.1'')]"
  let ?na = "[(45::int, sample_info Status.EXPERIMENTAL None ''0.3.2'')]"
  have run: "collect_updates sample_fromstatus (sample_args False True) ?oa [] ?na [] = Inr []"
    by code_simp
  have v: "take 2 (decompose_version ''0.3.1'') = take 2 (decompose_version ''0.3.2'')"
    by (simp add: decompose_version_def)
  from revival_unannounced [where oa = ?oa and na = ?na and k = 45
      and oi = "sample_info Status.DEFERRED None ''0.3.1''"
      and ni = "sample_info Status.EXPERIMENTAL None ''0.3.2''"
      and ro = "\<lparr> version = Some (Some ''0.3.1''), remark = Some ''Fix typos'',
                 initials = Some ''psa'' \<rparr>"
      and rn = "\<lparr> version = Some (Some ''0.3.2''), remark = Some ''Fix typos'',
                 initials = Some ''psa'' \<rparr>"
      and ov = "''0.3.1''" and nv = "''0.3.2''" and a = "sample_args False True"
      and fs = sample_fromstatus and keep_editorial = False and keep_other = True, OF _ _ _ _ _ _ _ _ v]
    run
  show ?thesis by (simp add: sample_defs)
qed

subsection \<open>The notification composer\<close>








































end
